theory Spec2Isabelle
  imports Main "HOL-Library.AList"
begin

section \<open>Python strings\<close>

text \<open>
  A Python \<open>str\<close> is a sequence of Unicode code points, and \<open>ord\<close> of a one-character
  string is its code point.  A character is therefore modelled by its code point, a
  natural number, and a string by the list of its code points.  An Isabelle \<open>char\<close> is a
  byte and cannot hold an emoji; ASCII literals of the source are written through
  \<open>py\<close>.
\<close>

type_synonym cp = nat
type_synonym pystr = "cp list"

definition py :: "string \<Rightarrow> pystr" where
  "py s = map of_char s"

text \<open>
  The whitespace of \<open>str.strip()\<close> and of the regular expression class \<open>\s\<close> on a
  \<open>str\<close> pattern: the code points for which \<open>str.isspace\<close> holds.
\<close>

definition is_space :: "cp \<Rightarrow> bool" where
  "is_space c \<longleftrightarrow>
     (0x09 \<le> c \<and> c \<le> 0x0D) \<or> (0x1C \<le> c \<and> c \<le> 0x20) \<or> c = 0x85 \<or> c = 0xA0 \<or>
     c = 0x1680 \<or> (0x2000 \<le> c \<and> c \<le> 0x200A) \<or> c = 0x2028 \<or> c = 0x2029 \<or>
     c = 0x202F \<or> c = 0x205F \<or> c = 0x3000"

definition strip :: "pystr \<Rightarrow> pystr" where
  "strip s = rev (dropWhile is_space (rev (dropWhile is_space s)))"

fun startswith :: "pystr \<Rightarrow> pystr \<Rightarrow> bool" where
  "startswith s [] = True"
| "startswith [] (p # ps) = False"
| "startswith (c # cs) (p # ps) = (c = p \<and> startswith cs ps)"

text \<open>\<open>content.split("\n")\<close>: always at least one piece, the separators removed.\<close>

fun split_nl :: "pystr \<Rightarrow> pystr list" where
  "split_nl [] = [[]]"
| "split_nl (c # cs) =
     (if c = 0x0A then [] # split_nl cs
      else (case split_nl cs of l # ls \<Rightarrow> (c # l) # ls | [] \<Rightarrow> [[c]]))"

text \<open>\<open>s[a:b]\<close> for \<open>0 \<le> a\<close> and \<open>0 \<le> b \<le> len(s)\<close>.\<close>

definition slice :: "pystr \<Rightarrow> int \<Rightarrow> int \<Rightarrow> pystr" where
  "slice s a b = drop (nat a) (take (nat b) s)"


section \<open>The emoji classifier\<close>

definition symbols_commonly_used :: "cp list" where
  "symbols_commonly_used =
     [0x2764, 0x2665, 0x2666, 0x2660, 0x2663, 0x2668, 0x267F, 0x2693, 0x26A0, 0x26A1,
      0x26AA, 0x26AB, 0x26BD, 0x26BE, 0x26C4, 0x26C5, 0x26CE, 0x26D4, 0x26EA, 0x26F2,
      0x26F3, 0x26F5, 0x26FA, 0x26FD, 0x2705, 0x270A, 0x270B, 0x2728, 0x274C, 0x274E,
      0x2753, 0x2754, 0x2755, 0x2757, 0x2795, 0x2796, 0x2797, 0x27B0, 0x27BF]"

definition mathematical_operators :: "cp list" where
  "mathematical_operators = [0x2716, 0x2714, 0x2611, 0x2B50]"

text \<open>\<open>is_emoji\<close>, on \<open>code = ord(char)\<close>, the disjuncts in the order of the source.\<close>

definition is_emoji :: "cp \<Rightarrow> bool" where
  "is_emoji code \<longleftrightarrow>
     (0x1F600 \<le> code \<and> code \<le> 0x1F64F) \<or>
     (0x1F300 \<le> code \<and> code \<le> 0x1F5FF) \<or>
     (0x1F680 \<le> code \<and> code \<le> 0x1F6FF) \<or>
     (0x2600 \<le> code \<and> code \<le> 0x26FF) \<or>
     (0x2700 \<le> code \<and> code \<le> 0x27BF) \<or>
     (0x1F900 \<le> code \<and> code \<le> 0x1F9FF) \<or>
     (0x1FA70 \<le> code \<and> code \<le> 0x1FAFF) \<or>
     (0x1F000 \<le> code \<and> code \<le> 0x1F02F) \<or>
     code \<in> set symbols_commonly_used \<or>
     (0x2190 \<le> code \<and> code \<le> 0x21FF) \<or>
     code \<in> set mathematical_operators"

text \<open>
  The classifier as the specification words it: the nine inclusive ranges in the
  specification's order, and one exact-match set of 43 code points.
\<close>

definition spec_ranges :: "(cp \<times> cp) list" where
  "spec_ranges =
     [(0x1F600, 0x1F64F), (0x1F300, 0x1F5FF), (0x1F680, 0x1F6FF), (0x2600, 0x26FF),
      (0x2700, 0x27BF), (0x1F900, 0x1F9FF), (0x1FA70, 0x1FAFF), (0x1F000, 0x1F02F),
      (0x2190, 0x21FF)]"

definition spec_exact_set :: "cp set" where
  "spec_exact_set =
     {0x2764, 0x2665, 0x2666, 0x2660, 0x2663, 0x2668, 0x267F, 0x2693, 0x26A0, 0x26A1,
      0x26AA, 0x26AB, 0x26BD, 0x26BE, 0x26C4, 0x26C5, 0x26CE, 0x26D4, 0x26EA, 0x26F2,
      0x26F3, 0x26F5, 0x26FA, 0x26FD, 0x2705, 0x270A, 0x270B, 0x2728, 0x274C, 0x274E,
      0x2753, 0x2754, 0x2755, 0x2757, 0x2795, 0x2796, 0x2797, 0x27B0, 0x27BF, 0x2716,
      0x2714, 0x2611, 0x2B50}"

definition in_spec_ranges :: "cp \<Rightarrow> bool" where
  "in_spec_ranges c \<longleftrightarrow> list_ex (\<lambda>(lo, hi). lo \<le> c \<and> c \<le> hi) spec_ranges"

definition ascii_alnum :: "cp \<Rightarrow> bool" where
  "ascii_alnum c \<longleftrightarrow>
     (0x30 \<le> c \<and> c \<le> 0x39) \<or> (0x41 \<le> c \<and> c \<le> 0x5A) \<or> (0x61 \<le> c \<and> c \<le> 0x7A)"

text \<open>The simpler predicate: the nine ranges, or the single code point \<open>0x2B50\<close>.\<close>

definition is_emoji_simple :: "cp \<Rightarrow> bool" where
  "is_emoji_simple c \<longleftrightarrow> in_spec_ranges c \<or> c = 0x2B50"


section \<open>The console pattern\<close>

text \<open>
  The pattern \<open>console\s*\.\s*(log|warn|error|info|debug)\s*\(\<close> is built from four
  constructs: a literal character, the greedy \<open>\s*\<close>, concatenation and ordered
  alternation.  \<open>rmatch r s\<close> lists, in the order in which a backtracking matcher tries
  them, the remainders of \<open>s\<close> after a match of \<open>r\<close> at its start; the first one is the
  match that \<open>re\<close> reports.
\<close>

datatype regex = Eps | Chr cp | Star_space | Cat regex regex | Alt regex regex

fun star_space :: "pystr \<Rightarrow> pystr list" where
  "star_space [] = [[]]"
| "star_space (c # cs) = (if is_space c then star_space cs @ [c # cs] else [c # cs])"

fun rmatch :: "regex \<Rightarrow> pystr \<Rightarrow> pystr list" where
  "rmatch Eps s = [s]"
| "rmatch (Chr c) s = (case s of [] \<Rightarrow> [] | x # xs \<Rightarrow> if x = c then [xs] else [])"
| "rmatch Star_space s = star_space s"
| "rmatch (Cat a b) s = concat (map (rmatch b) (rmatch a s))"
| "rmatch (Alt a b) s = rmatch a s @ rmatch b s"

fun lit :: "pystr \<Rightarrow> regex" where
  "lit [] = Eps"
| "lit (c # cs) = Cat (Chr c) (lit cs)"

definition console_pattern :: regex where
  "console_pattern =
     Cat (lit (py ''console'')) (Cat Star_space (Cat (Chr 0x2E) (Cat Star_space
       (Cat (Alt (lit (py ''log'')) (Alt (lit (py ''warn'')) (Alt (lit (py ''error''))
               (Alt (lit (py ''info'')) (lit (py ''debug''))))))
         (Cat Star_space (Chr 0x28))))))"

text \<open>The length of the match of the pattern at the start of \<open>s\<close>, if there is one.\<close>

definition match_at :: "pystr \<Rightarrow> nat option" where
  "match_at s = (case rmatch console_pattern s of [] \<Rightarrow> None | r # _ \<Rightarrow> Some (length s - length r))"

text \<open>
  \<open>re.finditer\<close>: the non-overlapping matches from left to right, as pairs
  \<open>(match.start(), match.end())\<close>.  The search resumes at the end of the last match (one
  position further after an empty match).
\<close>

function finditer :: "pystr \<Rightarrow> nat \<Rightarrow> (nat \<times> nat) list" where
  "finditer line pos =
     (if length line < pos then []
      else (case match_at (drop pos line) of
              None \<Rightarrow> finditer line (pos + 1)
            | Some n \<Rightarrow> (pos, pos + n) # finditer line (if n = 0 then pos + 1 else pos + n)))"
  by pat_completeness auto
termination
  by (relation "measure (\<lambda>(line, pos). length line + 1 - pos)") auto


section \<open>The context suppressor\<close>

record scan_state =
  paren_count :: int
  in_string :: bool
  string_char :: "cp option"
  escaped :: bool

definition init_state :: scan_state where
  "init_state = \<lparr>paren_count = 1, in_string = False, string_char = None, escaped = False\<rparr>"

text \<open>One pass through the body of the \<open>while\<close> loop, on \<open>char = line[pos]\<close>.\<close>

definition step :: "scan_state \<Rightarrow> cp \<Rightarrow> scan_state" where
  "step st char =
     (if escaped st then st\<lparr>escaped := False\<rparr>
      else if char = 0x5C then st\<lparr>escaped := True\<rparr>
      else if \<not> in_string st \<and> char \<in> set [0x22, 0x27, 0x60]
        then st\<lparr>in_string := True, string_char := Some char\<rparr>
      else if in_string st \<and> Some char = string_char st
        then st\<lparr>in_string := False, string_char := None\<rparr>
      else if \<not> in_string st then
        (if char = 0x28 then st\<lparr>paren_count := paren_count st + 1\<rparr>
         else if char = 0x29 then st\<lparr>paren_count := paren_count st - 1\<rparr>
         else st)
      else st)"

function scan_call :: "pystr \<Rightarrow> nat \<Rightarrow> scan_state \<Rightarrow> nat \<times> scan_state" where
  "scan_call line pos st =
     (if pos < length line \<and> 0 < paren_count st
      then scan_call line (pos + 1) (step st (line ! pos))
      else (pos, st))"
  by pat_completeness auto
termination
  by (relation "measure (\<lambda>(line, pos, st). length line - pos)") auto

text \<open>The value of \<open>pos\<close> after the loop, for the match that ends at \<open>start\<close>.\<close>

definition call_end :: "pystr \<Rightarrow> nat \<Rightarrow> nat" where
  "call_end line start = fst (scan_call line start init_state)"

text \<open>The \<open>for\<close> loop over the matches, with its early \<open>return True\<close>.\<close>

fun in_any_span :: "pystr \<Rightarrow> nat \<Rightarrow> (nat \<times> nat) list \<Rightarrow> bool" where
  "in_any_span line col_position [] = False"
| "in_any_span line col_position ((m_start, m_end) # ms) =
     (if m_start \<le> col_position \<and> col_position \<le> call_end line m_end then True
      else in_any_span line col_position ms)"

definition is_in_console_log :: "pystr \<Rightarrow> nat \<Rightarrow> bool" where
  "is_in_console_log line col_position = in_any_span line col_position (finditer line 0)"


section \<open>The file scanner\<close>

record finding =
  finding_line :: nat
  finding_column :: nat
  finding_emoji :: cp
  finding_context :: pystr

text \<open>\<open>line[max(0, col_num - 20) : min(len(line), col_num + 20)].strip()\<close>\<close>

definition get_context :: "pystr \<Rightarrow> nat \<Rightarrow> pystr" where
  "get_context line col_num =
     strip (slice line (max 0 (int col_num - 20)) (min (int (length line)) (int col_num + 20)))"

definition is_comment :: "pystr \<Rightarrow> bool" where
  "is_comment line \<longleftrightarrow> startswith (strip line) (py ''//'') \<or> startswith (strip line) (py ''#'')"

text \<open>The inner loop over \<open>enumerate(line, 1)\<close>.\<close>

definition scan_line :: "nat \<Rightarrow> pystr \<Rightarrow> finding list" where
  "scan_line line_num line =
     map (\<lambda>(col_num, char).
            \<lparr>finding_line = line_num, finding_column = col_num, finding_emoji = char,
             finding_context = get_context line col_num\<rparr>)
         (filter (\<lambda>(col_num, char). is_emoji char \<and> \<not> is_in_console_log line (col_num - 1))
            (enumerate 1 line))"

text \<open>The outer loop over \<open>enumerate(lines, 1)\<close>.\<close>

definition scan_content :: "pystr \<Rightarrow> finding list" where
  "scan_content content =
     concat (map (\<lambda>(line_num, line). if is_comment line then [] else scan_line line_num line)
               (enumerate 1 (split_nl content)))"

text \<open>
  Opening and reading a file either raises or yields the decoded text.  The argument of
  \<open>find_emojis_in_file\<close> is that outcome for \<open>filepath\<close>; the \<open>except Exception\<close> clause
  turns every failure into the empty list built so far.
\<close>

datatype error = OSError | UnicodeDecodeError

definition find_emojis_in_file :: "error + pystr \<Rightarrow> finding list" where
  "find_emojis_in_file r = (case r of Inl e \<Rightarrow> [] | Inr content \<Rightarrow> scan_content content)"


section \<open>The directory walker\<close>

text \<open>
  An entry that \<open>root_path.rglob("*")\<close> yields: the components of its path below the
  root, whether it is a directory, and what reading it gives.  Its \<open>parts\<close> are the
  parts of the root followed by its own.
\<close>

record entry =
  rel_parts :: "pystr list"
  is_dir :: bool
  contents :: "error + pystr"

definition parts :: "pystr list \<Rightarrow> entry \<Rightarrow> pystr list" where
  "parts root_parts e = root_parts @ rel_parts e"

definition extensions :: "pystr list" where
  "extensions = map py [''.js'', ''.jsx'', ''.ts'', ''.tsx'', ''.css'', ''.scss'', ''.json'']"

definition skip_dirs :: "pystr list" where
  "skip_dirs =
     map py [''node_modules'', ''.git'', ''dist'', ''build'', ''.next'', ''coverage'', ''__pycache__'']"

text \<open>\<open>str.rfind\<close> of one character: the last index where it occurs, or \<open>-1\<close>.\<close>

definition rfind :: "pystr \<Rightarrow> cp \<Rightarrow> int" where
  "rfind s c =
     (if c \<in> set s then int (length s) - 1 - int (length (takeWhile (\<lambda>x. x \<noteq> c) (rev s)))
      else - 1)"

text \<open>
  \<open>PurePath.suffix\<close>: with \<open>name\<close> the last component and \<open>i = name.rfind(".")\<close>, the
  suffix is \<open>name[i:]\<close> if \<open>0 < i < len(name) - 1\<close>, and empty otherwise.
\<close>

definition suffix :: "pystr list \<Rightarrow> pystr" where
  "suffix ps =
     (let name = (if ps = [] then [] else last ps); i = rfind name 0x2E
      in if 0 < i \<and> i < int (length name) - 1 then drop (nat i) name else [])"

text \<open>\<open>str(relative_path)\<close>: the components joined by the separator.\<close>

fun path_str :: "pystr list \<Rightarrow> pystr" where
  "path_str [] = py ''.''"
| "path_str [p] = p"
| "path_str (p # ps) = p @ 0x2F # path_str ps"

definition in_excluded_dir :: "pystr list \<Rightarrow> bool" where
  "in_excluded_dir ps \<longleftrightarrow> list_ex (\<lambda>skip_dir. skip_dir \<in> set ps) skip_dirs"

text \<open>
  The body of the loop of \<open>scan_directory\<close> on one entry, from \<open>results\<close> and
  \<open>total_emojis\<close> to their new values.  \<open>results\<close> is a dictionary in insertion order.
\<close>

definition scan_entry ::
  "pystr list \<Rightarrow> (pystr \<times> finding list) list \<times> nat \<Rightarrow> entry
     \<Rightarrow> (pystr \<times> finding list) list \<times> nat" where
  "scan_entry root_parts acc e =
     (case acc of (results, total_emojis) \<Rightarrow>
        if is_dir e then acc
        else if in_excluded_dir (parts root_parts e) then acc
        else if suffix (parts root_parts e) \<notin> set extensions then acc
        else (let emojis = find_emojis_in_file (contents e) in
              if emojis \<noteq> []
              then (AList.update (path_str (rel_parts e)) emojis results,
                    total_emojis + length emojis)
              else acc))"

definition scan_directory ::
  "pystr list \<Rightarrow> entry list \<Rightarrow> (pystr \<times> finding list) list \<times> nat" where
  "scan_directory root_parts entries = foldl (scan_entry root_parts) ([], 0) entries"


text \<open>
  The dictionary key of an entry, the three tests that an entry passes before
  \<open>find_emojis_in_file\<close> is called on it, and the pairs that the loop stores, in the
  order of the enumeration.
\<close>

definition key :: "entry \<Rightarrow> pystr" where
  "key e = path_str (rel_parts e)"

definition is_scanned :: "pystr list \<Rightarrow> entry \<Rightarrow> bool" where
  "is_scanned root_parts e \<longleftrightarrow>
     \<not> is_dir e \<and> \<not> in_excluded_dir (parts root_parts e) \<and>
     suffix (parts root_parts e) \<in> set extensions"

definition recorded :: "pystr list \<Rightarrow> entry list \<Rightarrow> (pystr \<times> finding list) list" where
  "recorded root_parts entries =
     map (\<lambda>e. (key e, find_emojis_in_file (contents e)))
       (filter (\<lambda>e. is_scanned root_parts e \<and> find_emojis_in_file (contents e) \<noteq> []) entries)"

definition total_len :: "(pystr \<times> finding list) list \<Rightarrow> nat" where
  "total_len results = sum_list (map (\<lambda>(k, v). length v) results)"


section \<open>Example inputs\<close>

text \<open>The lines of the specification's examples; \<open>0x1F600\<close> is the grinning face.\<close>

definition unterminated_line :: pystr where
  "unterminated_line = py ''console.log(\"'' @ [0x1F600]"

definition quoted_paren_line :: pystr where
  "quoted_paren_line = py ''console.log(\"a) '' @ [0x1F600] @ py ''\")''"

definition after_call_line :: pystr where
  "after_call_line = py ''console.log(x)'' @ [0x1F600]"

definition comment_line :: pystr where
  "comment_line = py ''// '' @ [0x1F600] @ py '' commented out''"

definition string_line :: pystr where
  "string_line = py ''const x = \"'' @ [0x1F600] @ py ''\";''"

definition two_lines :: pystr where
  "two_lines = string_line @ [0x0A] @ comment_line"

definition a_js :: entry where
  "a_js = \<lparr>rel_parts = [py ''a.js''], is_dir = False, contents = Inr string_line\<rparr>"

definition a_css :: entry where
  "a_css = \<lparr>rel_parts = [py ''a.css''], is_dir = False, contents = Inr string_line\<rparr>"

definition b_js :: entry where
  "b_js = \<lparr>rel_parts = [py ''src'', py ''b.js''], is_dir = False, contents = Inr comment_line\<rparr>"

definition src_dir :: entry where
  "src_dir = \<lparr>rel_parts = [py ''src''], is_dir = True, contents = Inl OSError\<rparr>"

definition index_js :: entry where
  "index_js = \<lparr>rel_parts = [py ''node_modules'', py ''pkg'', py ''index.js''], is_dir = False,
               contents = Inr string_line\<rparr>"

definition project_root :: "pystr list" where
  "project_root = [py ''/'', py ''home'', py ''proj'']"

definition build_root :: "pystr list" where
  "build_root = [py ''/'', py ''home'', py ''build'', py ''proj'']"

declare finditer.simps [simp del] scan_call.simps [simp del]


section \<open>Properties of the classifier\<close>

lemma exact_set_eq:
  "spec_exact_set = set (symbols_commonly_used @ mathematical_operators)"
  unfolding spec_exact_set_def symbols_commonly_used_def mathematical_operators_def
  by simp

lemma exact_set_split:
  "c \<in> spec_exact_set \<longleftrightarrow> c \<in> set symbols_commonly_used \<or> c \<in> set mathematical_operators"
  unfolding exact_set_eq by simp

lemma in_spec_ranges_iff:
  "in_spec_ranges c \<longleftrightarrow>
     (0x1F600 \<le> c \<and> c \<le> 0x1F64F) \<or> (0x1F300 \<le> c \<and> c \<le> 0x1F5FF) \<or>
     (0x1F680 \<le> c \<and> c \<le> 0x1F6FF) \<or> (0x2600 \<le> c \<and> c \<le> 0x26FF) \<or>
     (0x2700 \<le> c \<and> c \<le> 0x27BF) \<or> (0x1F900 \<le> c \<and> c \<le> 0x1F9FF) \<or>
     (0x1FA70 \<le> c \<and> c \<le> 0x1FAFF) \<or> (0x1F000 \<le> c \<and> c \<le> 0x1F02F) \<or>
     (0x2190 \<le> c \<and> c \<le> 0x21FF)"
  by (simp add: in_spec_ranges_def spec_ranges_def)

lemma symbols_in_ranges:
  "\<forall>x \<in> set symbols_commonly_used.
     (0x2600 \<le> x \<and> x \<le> 0x26FF) \<or> (0x2700 \<le> x \<and> x \<le> 0x27BF)"
  unfolding symbols_commonly_used_def by simp

lemma operators_in_ranges:
  "\<forall>x \<in> set mathematical_operators.
     x = 0x2B50 \<or> (0x2600 \<le> x \<and> x \<le> 0x26FF) \<or> (0x2700 \<le> x \<and> x \<le> 0x27BF)"
  unfolding mathematical_operators_def by simp

lemma star_operator: "0x2B50 \<in> set mathematical_operators"
  unfolding mathematical_operators_def by simp

lemma is_emoji_iff_lists:
  "is_emoji c \<longleftrightarrow>
     in_spec_ranges c \<or> c \<in> set symbols_commonly_used \<or> c \<in> set mathematical_operators"
  unfolding is_emoji_def in_spec_ranges_iff by blast

lemma in_spec_ranges_not_alnum: "ascii_alnum c \<Longrightarrow> \<not> in_spec_ranges c"
  unfolding in_spec_ranges_iff ascii_alnum_def by arith

lemma alnum_not_emoji: "ascii_alnum c \<Longrightarrow> \<not> is_emoji c"
proof
  assume a: "ascii_alnum c" and e: "is_emoji c"
  from a have n: "\<not> in_spec_ranges c" by (rule in_spec_ranges_not_alnum)
  from a have lt: "c < 0x2000" unfolding ascii_alnum_def by arith
  from e n have "c \<in> set symbols_commonly_used \<or> c \<in> set mathematical_operators"
    unfolding is_emoji_iff_lists by blast
  then have "0x2600 \<le> c \<or> c = 0x2B50"
    using symbols_in_ranges operators_in_ranges by fastforce
  with lt show False by arith
qed

text \<open>
  C1: \<open>is_emoji\<close> holds of a code point exactly when it lies in one of the nine listed
  inclusive ranges or belongs to the listed exact-match set, which contains \<open>0x2B50\<close>;
  it is false of the ASCII letters and digits.  As a HOL function it is total and has
  no effect.
\<close>

theorem is_emoji_table:
  "(is_emoji c \<longleftrightarrow> in_spec_ranges c \<or> c \<in> spec_exact_set) \<and>
   0x2B50 \<in> spec_exact_set \<and>
   (ascii_alnum c \<longrightarrow> \<not> is_emoji c)"
proof -
  have "is_emoji c \<longleftrightarrow> in_spec_ranges c \<or> c \<in> spec_exact_set"
    unfolding is_emoji_iff_lists exact_set_split by blast
  moreover have "0x2B50 \<in> spec_exact_set"
    unfolding exact_set_split using star_operator by blast
  ultimately show ?thesis using alnum_not_emoji by blast
qed

theorem is_emoji_table_witness:
  "ascii_alnum 0x41 \<and> \<not> is_emoji 0x41 \<and> in_spec_ranges 0x1F600 \<and> is_emoji 0x1F600"
proof -
  have a: "ascii_alnum 0x41" by (simp add: ascii_alnum_def)
  have r: "in_spec_ranges 0x1F600" by (simp add: in_spec_ranges_iff)
  from a r is_emoji_table [of "0x41"] is_emoji_table [of "0x1F600"] show ?thesis by blast
qed

text \<open>
  C8: \<open>is_emoji\<close> agrees everywhere with the simpler predicate "in one of the nine
  ranges, or equal to \<open>0x2B50\<close>": every entry of the two exact-match lists other than
  \<open>0x2B50\<close> already lies in \<open>0x2600-0x26FF\<close> or \<open>0x2700-0x27BF\<close>.
\<close>

theorem is_emoji_simple_equiv:
  "is_emoji c = is_emoji_simple c \<and>
   (\<forall>x \<in> set (symbols_commonly_used @ mathematical_operators).
      x \<noteq> 0x2B50 \<longrightarrow> (0x2600 \<le> x \<and> x \<le> 0x26FF) \<or> (0x2700 \<le> x \<and> x \<le> 0x27BF))"
proof -
  have "c \<in> set symbols_commonly_used \<Longrightarrow> in_spec_ranges c"
    using symbols_in_ranges unfolding in_spec_ranges_iff by blast
  moreover have "c \<in> set mathematical_operators \<Longrightarrow> in_spec_ranges c \<or> c = 0x2B50"
    using operators_in_ranges unfolding in_spec_ranges_iff by blast
  ultimately have "is_emoji c = is_emoji_simple c"
    unfolding is_emoji_iff_lists is_emoji_simple_def using star_operator by blast
  moreover have "\<forall>x \<in> set (symbols_commonly_used @ mathematical_operators).
      x \<noteq> 0x2B50 \<longrightarrow> (0x2600 \<le> x \<and> x \<le> 0x26FF) \<or> (0x2700 \<le> x \<and> x \<le> 0x27BF)"
    using symbols_in_ranges operators_in_ranges by auto
  ultimately show ?thesis by blast
qed

theorem is_emoji_simple_equiv_witness:
  "0x2764 \<in> set (symbols_commonly_used @ mathematical_operators) \<and> (0x2764 :: nat) \<noteq> 0x2B50 \<and>
   (0x2700 :: nat) \<le> 0x2764 \<and> (0x2764 :: nat) \<le> 0x27BF \<and>
   is_emoji 0x2764 \<and> is_emoji_simple 0x2764 \<and> is_emoji 0x2B50 \<and> is_emoji_simple 0x2B50"
proof -
  have m: "0x2764 \<in> set (symbols_commonly_used @ mathematical_operators)"
    by (simp add: symbols_commonly_used_def)
  have s: "is_emoji_simple 0x2764" "is_emoji_simple 0x2B50"
    by (simp_all add: is_emoji_simple_def in_spec_ranges_iff)
  have n: "(0x2764 :: nat) \<noteq> 0x2B50 \<and> (0x2700 :: nat) \<le> 0x2764 \<and> (0x2764 :: nat) \<le> 0x27BF"
    by simp
  from m s n is_emoji_simple_equiv [of "0x2764"] is_emoji_simple_equiv [of "0x2B50"]
  show ?thesis by blast
qed



section \<open>Properties of the matcher and of the scanning loop\<close>

lemma star_space_length: "r \<in> set (star_space s) \<Longrightarrow> length r \<le> length s"
  by (induction s arbitrary: r) (auto split: if_splits simp: le_SucI)

lemma rmatch_length: "r \<in> set (rmatch re s) \<Longrightarrow> length r \<le> length s"
proof (induction re arbitrary: r s)
  case (Cat a b)
  then obtain m where "m \<in> set (rmatch a s)" "r \<in> set (rmatch b m)" by auto
  with Cat.IH show ?case using le_trans by blast
qed (auto split: list.splits if_splits dest: star_space_length)

lemma match_at_le: "match_at s = Some n \<Longrightarrow> n \<le> length s"
  by (auto simp: match_at_def split: list.splits)

lemma finditer_bounds:
  "(m_start, m_end) \<in> set (finditer line pos) \<Longrightarrow>
     pos \<le> m_start \<and> m_start \<le> m_end \<and> m_end \<le> length line"
proof (induction line pos rule: finditer.induct)
  case (1 line pos)
  show ?case
  proof (cases "length line < pos")
    case True
    with "1.prems" show ?thesis by (simp add: finditer.simps)
  next
    case False
    show ?thesis
    proof (cases "match_at (drop pos line)")
      case None
      with False "1.prems" have "(m_start, m_end) \<in> set (finditer line (pos + 1))"
        by (simp add: finditer.simps[of line pos])
      with "1.IH"(1)[OF False None] show ?thesis by simp
    next
      case (Some n)
      from match_at_le[OF Some] False have n: "pos + n \<le> length line" by simp
      from False Some "1.prems" consider "(m_start, m_end) = (pos, pos + n)"
        | "(m_start, m_end) \<in> set (finditer line (if n = 0 then pos + 1 else pos + n))"
        by (auto simp: finditer.simps[of line pos])
      then show ?thesis
      proof cases
        case 1 with n show ?thesis by simp
      next
        case 2
        with "1.IH"(2)[OF False Some] show ?thesis by (auto split: if_splits)
      qed
    qed
  qed
qed

lemma scan_call_pos:
  "scan_call line pos st = (p, st') \<Longrightarrow>
     pos \<le> p \<and> (pos \<le> length line \<longrightarrow> p \<le> length line) \<and> (0 < paren_count st' \<longrightarrow> length line \<le> p)"
proof (induction line pos st rule: scan_call.induct)
  case (1 line pos st)
  show ?case
  proof (cases "pos < length line \<and> 0 < paren_count st")
    case True
    with "1.prems" have "scan_call line (pos + 1) (step st (line ! pos)) = (p, st')"
      by (simp add: scan_call.simps[of line pos])
    from "1.IH"[OF True this] True show ?thesis by simp
  next
    case False
    with "1.prems" have "p = pos" "st' = st" by (simp_all add: scan_call.simps[of line pos])
    with False show ?thesis by auto
  qed
qed

lemma step_decrease:
  "paren_count (step st c) < paren_count st \<Longrightarrow>
     c = 0x29 \<and> \<not> in_string st \<and> \<not> escaped st \<and> paren_count (step st c) = paren_count st - 1"
  by (auto simp: step_def split: if_splits)

lemma scan_call_closed:
  "scan_call line pos st = (p, st') \<Longrightarrow> 0 < paren_count st \<Longrightarrow> paren_count st' \<le> 0 \<Longrightarrow>
     pos < p \<and> p \<le> length line \<and> line ! (p - 1) = 0x29 \<and> paren_count st' = 0"
proof (induction line pos st rule: scan_call.induct)
  case (1 line pos st)
  show ?case
  proof (cases "pos < length line")
    case True
    let ?st1 = "step st (line ! pos)"
    from True "1.prems" have rec: "scan_call line (pos + 1) ?st1 = (p, st')"
      by (simp add: scan_call.simps[of line pos])
    show ?thesis
    proof (cases "0 < paren_count ?st1")
      case True2: True
      from "1.IH"[OF _ rec True2 "1.prems"(3)] True "1.prems"(2) show ?thesis by auto
    next
      case False
      with rec have eq: "p = pos + 1" "st' = ?st1" by (simp_all add: scan_call.simps[of line "Suc pos"])
      from False "1.prems"(2) have "paren_count ?st1 < paren_count st" by simp
      from step_decrease[OF this] "1.prems"(2) eq True False show ?thesis by auto
    qed
  next
    case False
    with "1.prems" show ?thesis by (simp add: scan_call.simps[of line pos])
  qed
qed

lemma in_any_span_iff:
  "in_any_span line col ms \<longleftrightarrow> (\<exists>(s, e) \<in> set ms. s \<le> col \<and> col \<le> call_end line e)"
  by (induction ms) auto


section \<open>The example lines, evaluated\<close>

lemmas line_eval = py_def unterminated_line_def quoted_paren_line_def after_call_line_def
  comment_line_def string_line_def two_lines_def

lemmas match_eval = match_at_def console_pattern_def is_space_def

lemma finditer_unterminated: "finditer unterminated_line 0 = [(0, 12)]"
  by (simp add: line_eval finditer.simps match_eval)

lemma finditer_quoted_paren: "finditer quoted_paren_line 0 = [(0, 12)]"
  by (simp add: line_eval finditer.simps match_eval)

lemma finditer_after_call: "finditer after_call_line 0 = [(0, 12)]"
  by (simp add: line_eval finditer.simps match_eval)

lemma finditer_string_line: "finditer string_line 0 = []"
  by (simp add: line_eval finditer.simps match_eval)

lemma scan_unterminated:
  "scan_call unterminated_line 12 init_state =
     (14, \<lparr>paren_count = 1, in_string = True, string_char = Some 0x22, escaped = False\<rparr>)"
  by (simp add: line_eval scan_call.simps init_state_def step_def)

lemma scan_quoted_paren:
  "scan_call quoted_paren_line 12 init_state =
     (19, \<lparr>paren_count = 0, in_string = False, string_char = None, escaped = False\<rparr>)"
  by (simp add: line_eval scan_call.simps init_state_def step_def)

lemma scan_after_call:
  "scan_call after_call_line 12 init_state =
     (14, \<lparr>paren_count = 0, in_string = False, string_char = None, escaped = False\<rparr>)"
  by (simp add: line_eval scan_call.simps init_state_def step_def)

lemma emoji_grinning: "is_emoji 0x1F600"
  by (simp add: is_emoji_def)

lemma ascii_not_emoji: "c < 0x80 \<Longrightarrow> \<not> is_emoji c"
  by (auto simp: is_emoji_iff_lists in_spec_ranges_iff
      dest!: symbols_in_ranges[rule_format] operators_in_ranges[rule_format])

lemma scan_line_unterminated: "scan_line n unterminated_line = []"
  by (simp add: scan_line_def is_in_console_log_def finditer_unterminated call_end_def
      scan_unterminated)
    (simp add: line_eval ascii_not_emoji)


section \<open>Properties of the directory loop\<close>

lemma scan_entry_eq:
  "scan_entry root (results, tot) e =
     (if is_scanned root e \<and> find_emojis_in_file (contents e) \<noteq> []
      then (AList.update (key e) (find_emojis_in_file (contents e)) results,
            tot + length (find_emojis_in_file (contents e)))
      else (results, tot))"
  by (simp add: scan_entry_def is_scanned_def key_def Let_def)

lemma update_fresh: "k \<notin> fst ` set al \<Longrightarrow> AList.update k v al = al @ [(k, v)]"
  by (induction al) auto

lemma fst_recorded: "fst ` set (recorded root es) \<subseteq> key ` set es"
  by (auto simp: recorded_def)

lemma foldl_scan_entry:
  "distinct (map key es) \<Longrightarrow> key ` set es \<inter> fst ` set results = {} \<Longrightarrow>
     foldl (scan_entry root) (results, tot) es =
       (results @ recorded root es, tot + total_len (recorded root es))"
proof (induction es arbitrary: results tot)
  case Nil
  show ?case by (simp add: recorded_def total_len_def)
next
  case (Cons e es)
  let ?fs = "find_emojis_in_file (contents e)"
  show ?case
  proof (cases "is_scanned root e \<and> ?fs \<noteq> []")
    case True
    from Cons.prems(2) have fresh: "key e \<notin> fst ` set results" by auto
    have step: "scan_entry root (results, tot) e = (results @ [(key e, ?fs)], tot + length ?fs)"
      using True by (simp add: scan_entry_eq update_fresh[OF fresh])
    from Cons.prems have d: "distinct (map key es)"
      and disj: "key ` set es \<inter> fst ` set (results @ [(key e, ?fs)]) = {}" by auto
    have rec: "recorded root (e # es) = (key e, ?fs) # recorded root es"
      using True by (simp add: recorded_def)
    show ?thesis
      by (simp add: step Cons.IH[OF d disj] rec total_len_def)
  next
    case False
    then have step: "scan_entry root (results, tot) e = (results, tot)"
      unfolding scan_entry_eq by (rule if_not_P)
    from Cons.prems have d: "distinct (map key es)"
      and disj: "key ` set es \<inter> fst ` set results = {}" by auto
    have rec: "recorded root (e # es) = recorded root es"
      using False by (simp add: recorded_def)
    show ?thesis
      by (simp add: step Cons.IH[OF d disj] rec)
  qed
qed

lemma scan_directory_recorded:
  "distinct (map key es) \<Longrightarrow>
     scan_directory root es = (recorded root es, total_len (recorded root es))"
  using foldl_scan_entry[of es "[]" root 0] by (simp add: scan_directory_def)

lemma distinct_recorded: "distinct (map key es) \<Longrightarrow> distinct (map fst (recorded root es))"
  by (simp add: recorded_def comp_def distinct_map_filter)

lemma map_of_recorded:
  assumes "distinct (map key es)" "e \<in> set es"
  shows "map_of (recorded root es) (key e) =
           (if is_scanned root e \<and> find_emojis_in_file (contents e) \<noteq> []
            then Some (find_emojis_in_file (contents e)) else None)"
proof (cases "is_scanned root e \<and> find_emojis_in_file (contents e) \<noteq> []")
  case True
  with assms(2) have "(key e, find_emojis_in_file (contents e)) \<in> set (recorded root es)"
    by (auto simp: recorded_def)
  with distinct_recorded[OF assms(1)] True show ?thesis by simp
next
  case False
  have "key e \<notin> fst ` set (recorded root es)"
  proof
    assume "key e \<in> fst ` set (recorded root es)"
    then obtain e' where e': "e' \<in> set es" "key e' = key e"
      "is_scanned root e' \<and> find_emojis_in_file (contents e') \<noteq> []"
      by (auto simp: recorded_def)
    from assms e'(1,2) have "e' = e" by (meson distinct_map inj_onD)
    with e'(3) False show False by simp
  qed
  then have "map_of (recorded root es) (key e) = None" by (simp add: map_of_eq_None_iff)
  then show ?thesis by (simp only: if_not_P[OF False])
qed

lemma excluded_root: "in_excluded_dir root \<Longrightarrow> in_excluded_dir (parts root e)"
  by (auto simp: in_excluded_dir_def parts_def list_ex_iff)

lemma foldl_excluded:
  "in_excluded_dir root \<Longrightarrow> foldl (scan_entry root) acc es = acc"
  by (induction es arbitrary: acc) (auto simp: scan_entry_def excluded_root split: prod.splits)

lemma scan_entry_no_findings:
  "find_emojis_in_file (contents e) = [] \<Longrightarrow> scan_entry root acc e = acc"
  by (auto simp: scan_entry_def split: prod.splits)



section \<open>Properties of the file scanner\<close>

lemma split_nl_single: "0x0A \<notin> set s \<Longrightarrow> split_nl s = [s]"
  by (induction s) auto

lemma find_single_line:
  "0x0A \<notin> set l \<Longrightarrow>
     find_emojis_in_file (Inr l) = (if is_comment l then [] else scan_line 1 l)"
  by (simp add: find_emojis_in_file_def scan_content_def split_nl_single)

lemma scan_line_line: "f \<in> set (scan_line n l) \<Longrightarrow> finding_line f = n"
  by (auto simp: scan_line_def)

lemma scan_content_origin:
  assumes "f \<in> set (scan_content content)"
  shows "\<exists>k < length (split_nl content). finding_line f = k + 1 \<and>
           \<not> is_comment (split_nl content ! k) \<and> f \<in> set (scan_line (k + 1) (split_nl content ! k))"
proof -
  from assms obtain n l where nl: "(n, l) \<in> set (enumerate 1 (split_nl content))"
    and f: "f \<in> set (if is_comment l then [] else scan_line n l)"
    by (auto simp: scan_content_def)
  from nl have n: "1 \<le> n" "n < length (split_nl content) + 1" "split_nl content ! (n - 1) = l"
    by (auto simp: in_set_enumerate_eq)
  from f have c: "\<not> is_comment l" and f': "f \<in> set (scan_line n l)"
    by (auto split: if_splits)
  from n c f' scan_line_line[OF f'] show ?thesis
    by (intro exI[of _ "n - 1"]) auto
qed

lemma not_comment_unterminated: "\<not> is_comment unterminated_line"
  by (simp add: is_comment_def strip_def line_eval is_space_def)

lemma is_comment_comment_line: "is_comment comment_line"
  by (simp add: is_comment_def strip_def line_eval is_space_def)

lemma find_unterminated: "find_emojis_in_file (Inr unterminated_line) = []"
proof -
  have "0x0A \<notin> set unterminated_line" by (simp add: line_eval)
  from find_single_line[OF this] show ?thesis by (simp add: scan_line_unterminated)
qed

lemma scan_line_quoted_paren: "scan_line n quoted_paren_line = []"
  by (simp add: scan_line_def is_in_console_log_def finditer_quoted_paren call_end_def
      scan_quoted_paren)
    (simp add: line_eval ascii_not_emoji)

lemma scan_line_after_call: "scan_line n after_call_line = []"
  by (simp add: scan_line_def is_in_console_log_def finditer_after_call call_end_def
      scan_after_call)
    (simp add: line_eval ascii_not_emoji)

lemma find_quoted_paren: "find_emojis_in_file (Inr quoted_paren_line) = []"
proof -
  have "0x0A \<notin> set quoted_paren_line" by (simp add: line_eval)
  from find_single_line[OF this] show ?thesis by (simp add: scan_line_quoted_paren)
qed

lemma find_after_call: "find_emojis_in_file (Inr after_call_line) = []"
proof -
  have "0x0A \<notin> set after_call_line" by (simp add: line_eval)
  from find_single_line[OF this] show ?thesis by (simp add: scan_line_after_call)
qed

lemma find_comment_line: "find_emojis_in_file (Inr comment_line) = []"
proof -
  have "0x0A \<notin> set comment_line" by (simp add: line_eval)
  from find_single_line[OF this] show ?thesis by (simp add: is_comment_comment_line)
qed

lemma not_comment_string_line: "\<not> is_comment string_line"
  by (simp add: is_comment_def strip_def line_eval is_space_def)

lemma scan_line_string_line:
  "scan_line n string_line =
     [\<lparr>finding_line = n, finding_column = 12, finding_emoji = 0x1F600,
       finding_context = string_line\<rparr>]"
  by (simp add: scan_line_def is_in_console_log_def finditer_string_line)
    (simp add: line_eval ascii_not_emoji emoji_grinning get_context_def slice_def strip_def
      is_space_def)

lemma find_string_line:
  "find_emojis_in_file (Inr string_line) =
     [\<lparr>finding_line = 1, finding_column = 12, finding_emoji = 0x1F600,
       finding_context = string_line\<rparr>]"
proof -
  have "0x0A \<notin> set string_line" by (simp add: line_eval)
  from find_single_line[OF this] show ?thesis
    by (simp add: scan_line_string_line not_comment_string_line)
qed

lemma split_two_lines: "split_nl two_lines = [string_line, comment_line]"
proof -
  have "split_nl (a @ 0x0A # b) = a # split_nl b" if "0x0A \<notin> set a" for a b
    using that by (induction a) (auto split: list.splits)
  moreover have "0x0A \<notin> set string_line" "0x0A \<notin> set comment_line" by (simp_all add: line_eval)
  ultimately show ?thesis by (simp add: two_lines_def split_nl_single)
qed

lemma find_two_lines:
  "find_emojis_in_file (Inr two_lines) =
     [\<lparr>finding_line = 1, finding_column = 12, finding_emoji = 0x1F600,
       finding_context = string_line\<rparr>]"
  by (simp add: find_emojis_in_file_def scan_content_def split_two_lines
      not_comment_string_line is_comment_comment_line scan_line_string_line)



section \<open>Spans of console calls and skipped lines\<close>

lemma span_suppressed:
  "(m_start, m_end) \<in> set (finditer line 0) \<Longrightarrow> m_start \<le> off \<Longrightarrow>
     off \<le> call_end line m_end \<Longrightarrow> is_in_console_log line off"
  unfolding is_in_console_log_def in_any_span_iff by blast

lemma step_in_quoted_run:
  "in_string st \<Longrightarrow> \<not> escaped st \<Longrightarrow> c \<noteq> 0x5C \<Longrightarrow> string_char st \<noteq> Some c \<Longrightarrow> step st c = st"
  by (auto simp: step_def)

lemma quoted_run_skip:
  "in_string st \<Longrightarrow> \<not> escaped st \<Longrightarrow> string_char st = Some q \<Longrightarrow> 0 < paren_count st \<Longrightarrow>
   pos + k \<le> length line \<Longrightarrow> (\<And>i. i < k \<Longrightarrow> line ! (pos + i) \<noteq> q \<and> line ! (pos + i) \<noteq> 0x5C) \<Longrightarrow>
     scan_call line pos st = scan_call line (pos + k) st"
proof (induction k arbitrary: pos)
  case 0
  show ?case by simp
next
  case (Suc k)
  from Suc.prems(6)[of 0] have c: "line ! pos \<noteq> q" "line ! pos \<noteq> 0x5C" by simp_all
  with Suc.prems(1-3) have st: "step st (line ! pos) = st"
    by (intro step_in_quoted_run) auto
  from Suc.prems(4,5) have "scan_call line pos st = scan_call line (pos + 1) (step st (line ! pos))"
    by (simp add: scan_call.simps[of line pos])
  also have "\<dots> = scan_call line (pos + 1) st" by (simp only: st)
  also have "\<dots> = scan_call line (pos + 1 + k) st"
  proof (rule Suc.IH[OF Suc.prems(1-4)])
    show "pos + 1 + k \<le> length line" using Suc.prems(5) by simp
    show "line ! (pos + 1 + i) \<noteq> q \<and> line ! (pos + 1 + i) \<noteq> 0x5C" if "i < k" for i
      using Suc.prems(6)[of "Suc i"] that by simp
  qed
  finally show ?case by simp
qed

text \<open>
  C3: when the scan of a console call reaches the end of the line with the nesting
  counter still positive, the span of the call ends at the length of the line, and
  \<open>is_in_console_log\<close> holds of every offset from the start of the match up to the end
  of the line.  For the line \<open>console.log("\<close> followed by an emoji, the emoji (offset 13)
  is suppressed and the file scanner reports nothing.
\<close>

theorem unterminated_call_span:
  "((m_start, m_end) \<in> set (finditer line 0) \<and>
      0 < paren_count (snd (scan_call line m_end init_state)) \<longrightarrow>
      call_end line m_end = length line \<and>
      (\<forall>off. m_start \<le> off \<and> off \<le> length line \<longrightarrow> is_in_console_log line off)) \<and>
   is_in_console_log unterminated_line 13 \<and>
   find_emojis_in_file (Inr unterminated_line) = []"
proof -
  have general: "call_end line m_end = length line \<and>
      (\<forall>off. m_start \<le> off \<and> off \<le> length line \<longrightarrow> is_in_console_log line off)"
    if m: "(m_start, m_end) \<in> set (finditer line 0)"
      and open_call: "0 < paren_count (snd (scan_call line m_end init_state))"
  proof -
    obtain p st' where sc: "scan_call line m_end init_state = (p, st')"
      by (cases "scan_call line m_end init_state")
    from finditer_bounds[OF m] have "m_end \<le> length line" by simp
    with scan_call_pos[OF sc] open_call sc have "p = length line" by simp
    with sc have ce: "call_end line m_end = length line" by (simp add: call_end_def)
    with span_suppressed[OF m] show ?thesis by simp
  qed
  have "is_in_console_log unterminated_line 13"
    by (simp add: is_in_console_log_def finditer_unterminated call_end_def scan_unterminated)
  with general find_unterminated show ?thesis by blast
qed

theorem unterminated_call_span_witness:
  "(0, 12) \<in> set (finditer unterminated_line 0) \<and>
   0 < paren_count (snd (scan_call unterminated_line 12 init_state)) \<and>
   call_end unterminated_line 12 = length unterminated_line \<and>
   length unterminated_line = 14 \<and>
   is_in_console_log unterminated_line 0 \<and> is_in_console_log unterminated_line 13 \<and>
   is_in_console_log unterminated_line 14"
proof -
  have m: "(0, 12) \<in> set (finditer unterminated_line 0)"
    by (simp add: finditer_unterminated)
  have c: "0 < paren_count (snd (scan_call unterminated_line 12 init_state))"
    by (simp add: scan_unterminated)
  have l: "length unterminated_line = 14" by (simp add: line_eval)
  from m c l unterminated_call_span [of 0 12 unterminated_line] show ?thesis by simp
qed

text \<open>
  C4: while a quoted run is active, no character changes the nesting counter, and the
  run ends only at its own quote character when that is not escaped; a run opens only
  at an unescaped \<open>"\<close>, \<open>'\<close> or backtick, which becomes its quote character; the counter
  changes only at an unquoted, unescaped parenthesis.  Over a stretch of a quoted run
  with neither the quote character nor a backslash the loop leaves the state as it is,
  whatever parentheses the stretch holds.  For the line \<open>console.log("a) E")\<close>, with
  \<open>E\<close> an emoji, the span ends after the last parenthesis (position 19), not after the
  quoted one at index 14, and the emoji at offset 16 is suppressed.
\<close>

theorem quoted_parens_ignored:
  "(in_string st \<longrightarrow> paren_count (step st c) = paren_count st) \<and>
   (in_string st \<longrightarrow>
      (in_string (step st c) \<longleftrightarrow> \<not> (\<not> escaped st \<and> c \<noteq> 0x5C \<and> string_char st = Some c))) \<and>
   (paren_count (step st c) \<noteq> paren_count st \<longrightarrow>
      \<not> in_string st \<and> \<not> escaped st \<and> (c = 0x28 \<or> c = 0x29)) \<and>
   (\<not> in_string st \<and> \<not> escaped st \<longrightarrow>
      (in_string (step st c) \<longleftrightarrow> c = 0x22 \<or> c = 0x27 \<or> c = 0x60) \<and>
      (in_string (step st c) \<longrightarrow> string_char (step st c) = Some c)) \<and>
   (in_string st \<and> \<not> escaped st \<and> string_char st = Some q \<and> 0 < paren_count st \<and>
    pos + k \<le> length line \<and> (\<forall>i < k. line ! (pos + i) \<noteq> q \<and> line ! (pos + i) \<noteq> 0x5C) \<longrightarrow>
      scan_call line pos st = scan_call line (pos + k) st) \<and>
   finditer quoted_paren_line 0 = [(0, 12)] \<and>
   scan_call quoted_paren_line 12 init_state =
     (19, \<lparr>paren_count = 0, in_string = False, string_char = None, escaped = False\<rparr>) \<and>
   quoted_paren_line ! 14 = 0x29 \<and> quoted_paren_line ! 18 = 0x29 \<and>
   is_in_console_log quoted_paren_line 16 \<and>
   find_emojis_in_file (Inr quoted_paren_line) = []"
proof -
  have a: "in_string st \<longrightarrow> paren_count (step st c) = paren_count st"
    by (simp add: step_def)
  have b: "in_string st \<longrightarrow>
      (in_string (step st c) \<longleftrightarrow> \<not> (\<not> escaped st \<and> c \<noteq> 0x5C \<and> string_char st = Some c))"
    by (auto simp: step_def)
  have d: "paren_count (step st c) \<noteq> paren_count st \<longrightarrow>
      \<not> in_string st \<and> \<not> escaped st \<and> (c = 0x28 \<or> c = 0x29)"
    by (auto simp: step_def split: if_splits)
  have o: "\<not> in_string st \<and> \<not> escaped st \<longrightarrow>
      (in_string (step st c) \<longleftrightarrow> c = 0x22 \<or> c = 0x27 \<or> c = 0x60) \<and>
      (in_string (step st c) \<longrightarrow> string_char (step st c) = Some c)"
    by (auto simp: step_def)
  have e: "in_string st \<and> \<not> escaped st \<and> string_char st = Some q \<and> 0 < paren_count st \<and>
    pos + k \<le> length line \<and> (\<forall>i < k. line ! (pos + i) \<noteq> q \<and> line ! (pos + i) \<noteq> 0x5C) \<longrightarrow>
      scan_call line pos st = scan_call line (pos + k) st"
    using quoted_run_skip[of st q pos k line] by blast
  have f: "quoted_paren_line ! 14 = 0x29" "quoted_paren_line ! 18 = 0x29"
    by (simp_all add: line_eval)
  have g: "is_in_console_log quoted_paren_line 16"
    by (simp add: is_in_console_log_def finditer_quoted_paren call_end_def scan_quoted_paren)
  from a b d o e f g finditer_quoted_paren scan_quoted_paren find_quoted_paren
  show ?thesis by blast
qed

theorem quoted_parens_ignored_witness:
  "in_string (step init_state 0x22) \<and> \<not> escaped (step init_state 0x22) \<and>
   string_char (step init_state 0x22) = Some 0x22 \<and>
   paren_count (step init_state 0x22) = 1 \<and>
   paren_count (step (step init_state 0x22) 0x29) = paren_count (step init_state 0x22) \<and>
   in_string (step (step init_state 0x22) 0x29) \<and>
   in_string (step (step init_state 0x22) 0x27) \<and>
   \<not> in_string (step (step init_state 0x22) 0x22) \<and>
   paren_count (step init_state 0x29) \<noteq> paren_count init_state \<and>
   13 + 4 \<le> length quoted_paren_line \<and>
   scan_call quoted_paren_line 13 (step init_state 0x22) =
     scan_call quoted_paren_line (13 + 4) (step init_state 0x22) \<and>
   is_in_console_log quoted_paren_line 16"
proof -
  let ?s = "step init_state 0x22"
  have s: "?s = \<lparr>paren_count = 1, in_string = True, string_char = Some 0x22, escaped = False\<rparr>"
    by (simp add: step_def init_state_def)
  have h: "in_string ?s" "\<not> escaped ?s" "string_char ?s = Some 0x22" "0 < paren_count ?s"
    "paren_count ?s = 1" "string_char ?s \<noteq> Some 0x29" "string_char ?s \<noteq> Some 0x27"
    by (simp_all add: s)
  have len: "13 + 4 \<le> length quoted_paren_line" by (simp add: line_eval)
  have run: "\<forall>i < 4. quoted_paren_line ! (13 + i) \<noteq> 0x22 \<and> quoted_paren_line ! (13 + i) \<noteq> 0x5C"
  proof (intro allI impI)
    fix i :: nat
    assume "i < 4"
    then consider "i = 0" | "i = 1" | "i = 2" | "i = 3" by arith
    then show "quoted_paren_line ! (13 + i) \<noteq> 0x22 \<and> quoted_paren_line ! (13 + i) \<noteq> 0x5C"
      by cases (simp_all add: line_eval)
  qed
  have n: "paren_count (step init_state 0x29) \<noteq> paren_count init_state"
    by (simp add: step_def init_state_def)
  have ne: "(0x22 :: nat) \<noteq> 0x5C" by simp
  note t1 = quoted_parens_ignored [of ?s "0x29" "0x22" 13 4 quoted_paren_line]
  note t2 = quoted_parens_ignored [of ?s "0x27" "0x22" 13 4 quoted_paren_line]
  note t3 = quoted_parens_ignored [of ?s "0x22" "0x22" 13 4 quoted_paren_line]
  from t1 h have c1: "paren_count (step ?s 0x29) = paren_count ?s" by blast
  from t1 h have c2: "in_string (step ?s 0x29)" by blast
  from t2 h have c3: "in_string (step ?s 0x27)" by blast
  from t3 h ne have c4: "\<not> in_string (step ?s 0x22)" by blast
  from t1 h len run have c5: "scan_call quoted_paren_line 13 ?s = scan_call quoted_paren_line (13 + 4) ?s"
    by blast
  from t1 have c6: "is_in_console_log quoted_paren_line 16" by blast
  from h c1 c2 c3 c4 c5 c6 n len show ?thesis by blast
qed

text \<open>
  C9: when the nesting counter reaches 0, the scan position is one past a closing
  parenthesis at index \<open>p\<close>, and \<open>is_in_console_log\<close> holds of the offset \<open>p + 1\<close> too.
  For the line \<open>console.log(x)\<close> directly followed by an emoji, the emoji at offset 14,
  outside the argument list, is suppressed and the file scanner reports nothing.
\<close>

theorem closing_paren_inclusive:
  "((m_start, m_end) \<in> set (finditer line 0) \<and>
      paren_count (snd (scan_call line m_end init_state)) = 0 \<longrightarrow>
      (let p = call_end line m_end - 1
       in p < length line \<and> line ! p = 0x29 \<and> call_end line m_end = p + 1 \<and>
          is_in_console_log line (p + 1))) \<and>
   call_end after_call_line 12 = 14 \<and> after_call_line ! 14 = 0x1F600 \<and>
   is_in_console_log after_call_line 14 \<and>
   find_emojis_in_file (Inr after_call_line) = []"
proof -
  have general: "let p = call_end line m_end - 1
       in p < length line \<and> line ! p = 0x29 \<and> call_end line m_end = p + 1 \<and>
          is_in_console_log line (p + 1)"
    if m: "(m_start, m_end) \<in> set (finditer line 0)"
      and closed: "paren_count (snd (scan_call line m_end init_state)) = 0"
  proof -
    obtain p st' where sc: "scan_call line m_end init_state = (p, st')"
      by (cases "scan_call line m_end init_state")
    have "0 < paren_count init_state" by (simp add: init_state_def)
    from scan_call_closed[OF sc this] closed sc
    have p: "m_end < p" "p \<le> length line" "line ! (p - 1) = 0x29" by simp_all
    from sc have ce: "call_end line m_end = p" by (simp add: call_end_def)
    from finditer_bounds[OF m] p(1) have "m_start \<le> p" by simp
    from span_suppressed[OF m this] ce have "is_in_console_log line p" by simp
    with p ce show ?thesis by (simp add: Let_def)
  qed
  have "call_end after_call_line 12 = 14" by (simp add: call_end_def scan_after_call)
  moreover have "after_call_line ! 14 = 0x1F600" by (simp add: line_eval)
  moreover have "is_in_console_log after_call_line 14"
    by (simp add: is_in_console_log_def finditer_after_call call_end_def scan_after_call)
  ultimately show ?thesis using general find_after_call by blast
qed

theorem closing_paren_inclusive_witness:
  "(0, 12) \<in> set (finditer after_call_line 0) \<and>
   paren_count (snd (scan_call after_call_line 12 init_state)) = 0 \<and>
   call_end after_call_line 12 - 1 = 13 \<and> after_call_line ! 13 = 0x29 \<and>
   is_in_console_log after_call_line (13 + 1)"
proof -
  have m: "(0, 12) \<in> set (finditer after_call_line 0)"
    by (simp add: finditer_after_call)
  have c: "paren_count (snd (scan_call after_call_line 12 init_state)) = 0"
    by (simp add: scan_after_call)
  have p: "call_end after_call_line 12 = 14" by (simp add: call_end_def scan_after_call)
  from m c closing_paren_inclusive [of 0 12 after_call_line] show ?thesis
    by (simp add: Let_def p)
qed

text \<open>
  C6: a line whose stripped form begins with \<open>//\<close> or \<open>#\<close> yields no finding: no finding
  of the file carries the number of such a line, and every finding comes from the scan
  of the line whose number it carries.  The line \<open>// E commented out\<close>, with \<open>E\<close> an
  emoji, yields no finding.
\<close>

theorem comment_lines_skipped:
  "(k < length (split_nl content) \<and> is_comment (split_nl content ! k) \<longrightarrow>
      (\<forall>f \<in> set (find_emojis_in_file (Inr content)). finding_line f \<noteq> k + 1)) \<and>
   (\<forall>f \<in> set (find_emojis_in_file (Inr content)).
      1 \<le> finding_line f \<and> finding_line f \<le> length (split_nl content) \<and>
      f \<in> set (scan_line (finding_line f) (split_nl content ! (finding_line f - 1)))) \<and>
   find_emojis_in_file (Inr comment_line) = []"
proof -
  have origin: "\<exists>k < length (split_nl content). finding_line f = k + 1 \<and>
           \<not> is_comment (split_nl content ! k) \<and> f \<in> set (scan_line (k + 1) (split_nl content ! k))"
    if "f \<in> set (find_emojis_in_file (Inr content))" for f
    using that scan_content_origin[of f content] by (simp add: find_emojis_in_file_def)
  have a: "k < length (split_nl content) \<and> is_comment (split_nl content ! k) \<longrightarrow>
      (\<forall>f \<in> set (find_emojis_in_file (Inr content)). finding_line f \<noteq> k + 1)"
    using origin by fastforce
  have b: "\<forall>f \<in> set (find_emojis_in_file (Inr content)).
      1 \<le> finding_line f \<and> finding_line f \<le> length (split_nl content) \<and>
      f \<in> set (scan_line (finding_line f) (split_nl content ! (finding_line f - 1)))"
    using origin by fastforce
  from a b find_comment_line show ?thesis by blast
qed

theorem comment_lines_skipped_witness:
  "1 < length (split_nl two_lines) \<and> is_comment (split_nl two_lines ! 1) \<and>
   split_nl two_lines ! 1 = comment_line \<and>
   map finding_line (find_emojis_in_file (Inr two_lines)) = [1] \<and>
   2 \<notin> finding_line ` set (find_emojis_in_file (Inr two_lines))"
proof -
  have l: "1 < length (split_nl two_lines)" "split_nl two_lines ! 1 = comment_line"
    by (simp_all add: split_two_lines)
  have c: "is_comment (split_nl two_lines ! 1)"
    by (simp add: split_two_lines is_comment_comment_line)
  have m: "map finding_line (find_emojis_in_file (Inr two_lines)) = [1]"
    by (simp add: find_two_lines)
  from l c m comment_lines_skipped [of 1 two_lines] show ?thesis by auto
qed


section \<open>The example tree, evaluated\<close>

lemmas entry_eval = a_js_def a_css_def b_js_def src_dir_def index_js_def project_root_def
  build_root_def key_def

lemmas walker_eval = is_scanned_def in_excluded_dir_def skip_dirs_def parts_def suffix_def
  rfind_def extensions_def py_def Let_def

lemma keys_example:
  "key a_js = py ''a.js''" "key a_css = py ''a.css''" "key b_js = py ''src/b.js''"
  "key src_dir = py ''src''" "key index_js = py ''node_modules/pkg/index.js''"
  by (simp_all add: entry_eval py_def)

lemma scanned_example:
  "is_scanned project_root a_js" "is_scanned project_root a_css" "is_scanned project_root b_js"
  "\<not> is_scanned project_root src_dir" "\<not> is_scanned project_root index_js"
  "\<not> is_scanned build_root a_js"
  by (simp_all add: entry_eval walker_eval)

lemma contents_example:
  "find_emojis_in_file (contents a_js) = find_emojis_in_file (Inr string_line)"
  "find_emojis_in_file (contents a_css) = find_emojis_in_file (Inr string_line)"
  "find_emojis_in_file (contents index_js) = find_emojis_in_file (Inr string_line)"
  "find_emojis_in_file (contents b_js) = []"
  by (simp_all add: entry_eval find_comment_line)

lemma find_string_line_nonempty: "find_emojis_in_file (Inr string_line) \<noteq> []"
  by (simp add: find_string_line)

lemma distinct_example: "distinct (map key [a_js, src_dir, b_js, index_js, a_css])"
  by (simp add: keys_example py_def)

lemma recorded_example:
  "recorded project_root [a_js, src_dir, b_js, index_js, a_css] =
     [(py ''a.js'', find_emojis_in_file (Inr string_line)),
      (py ''a.css'', find_emojis_in_file (Inr string_line))]"
  by (simp add: recorded_def scanned_example contents_example keys_example
      find_string_line_nonempty)

lemma scan_directory_example:
  "scan_directory project_root [a_js, src_dir, b_js, index_js, a_css] =
     ([(py ''a.js'', find_emojis_in_file (Inr string_line)),
       (py ''a.css'', find_emojis_in_file (Inr string_line))], 2)"
  by (simp add: scan_directory_recorded[OF distinct_example] recorded_example total_len_def
      find_string_line)

text \<open>
  C5: when opening or decoding fails, \<open>find_emojis_in_file\<close> returns the empty list (a
  value, not an exception); the directory scan goes on with the following entries from
  the state it had before the file; and the report is the one obtained had the file
  held any text without findings.
\<close>

theorem unreadable_file_skipped:
  "find_emojis_in_file (Inl err) = [] \<and>
   scan_directory root (before @ e\<lparr>contents := Inl err\<rparr> # rest) =
     foldl (scan_entry root) (scan_directory root before) rest \<and>
   (find_emojis_in_file (Inr text) = [] \<longrightarrow>
      scan_directory root (before @ e\<lparr>contents := Inl err\<rparr> # rest) =
      scan_directory root (before @ e\<lparr>contents := Inr text\<rparr> # rest))"
proof -
  have a: "find_emojis_in_file (Inl err) = []" by (simp add: find_emojis_in_file_def)
  have skip: "scan_directory root (before @ e' # rest) =
      foldl (scan_entry root) (scan_directory root before) rest"
    if "find_emojis_in_file (contents e') = []" for e'
    using scan_entry_no_findings[OF that] by (simp add: scan_directory_def)
  have b: "scan_directory root (before @ e\<lparr>contents := Inl err\<rparr> # rest) =
     foldl (scan_entry root) (scan_directory root before) rest"
    by (rule skip) (simp add: a)
  have c: "scan_directory root (before @ e\<lparr>contents := Inr text\<rparr> # rest) =
     foldl (scan_entry root) (scan_directory root before) rest"
    if "find_emojis_in_file (Inr text) = []"
    by (rule skip) (simp add: that)
  from a b c show ?thesis by simp
qed

theorem unreadable_file_skipped_witness:
  "find_emojis_in_file (Inr comment_line) = [] \<and>
   scan_directory project_root ([a_js] @ b_js\<lparr>contents := Inl UnicodeDecodeError\<rparr> # [a_css]) =
     scan_directory project_root ([a_js] @ b_js\<lparr>contents := Inr comment_line\<rparr> # [a_css]) \<and>
   scan_directory project_root ([a_js] @ b_js\<lparr>contents := Inl UnicodeDecodeError\<rparr> # [a_css]) =
     foldl (scan_entry project_root) (scan_directory project_root [a_js]) [a_css]"
  using unreadable_file_skipped [of UnicodeDecodeError project_root "[a_js]" b_js "[a_css]" comment_line]
    find_comment_line by blast

lemma set_update_subset: "set (AList.update k v al) \<subseteq> insert (k, v) (set al)"
  by (induction al) auto

lemma scan_entry_nonempty:
  assumes "\<forall>(k, v) \<in> set (fst acc). v \<noteq> []"
  shows "\<forall>(k, v) \<in> set (fst (scan_entry root acc e)). v \<noteq> []"
proof (cases acc)
  case (Pair results tot)
  show ?thesis
  proof (cases "is_scanned root e \<and> find_emojis_in_file (contents e) \<noteq> []")
    case True
    with assms Pair set_update_subset[of "key e" "find_emojis_in_file (contents e)" results]
    show ?thesis by (auto simp: scan_entry_eq)
  next
    case False
    have "scan_entry root (results, tot) e = (results, tot)"
      unfolding scan_entry_eq using False by (rule if_not_P)
    with assms Pair show ?thesis by simp
  qed
qed

lemma foldl_nonempty:
  "\<forall>(k, v) \<in> set (fst acc). v \<noteq> [] \<Longrightarrow>
     \<forall>(k, v) \<in> set (fst (foldl (scan_entry root) acc es)). v \<noteq> []"
proof (induction es arbitrary: acc)
  case Nil
  then show ?case by simp
next
  case (Cons e es)
  have "\<forall>(k, v) \<in> set (fst (scan_entry root acc e)). v \<noteq> []"
    using Cons.prems by (rule scan_entry_nonempty)
  from Cons.IH[OF this] show ?case by simp
qed

text \<open>
  C7: in the report of \<open>scan_directory\<close> every stored list of findings is non-empty;
  and when the enumeration yields each relative path once, a file whose scan yields no
  finding is not a key, the keys are distinct, and the total is the sum of the lengths
  of the stored lists.
\<close>

theorem report_invariant:
  "scan_directory root entries = (results, total_emojis) \<Longrightarrow>
     (\<forall>(k, v) \<in> set results. v \<noteq> []) \<and>
     (distinct (map key entries) \<longrightarrow>
        (\<forall>e \<in> set entries. find_emojis_in_file (contents e) = [] \<longrightarrow> key e \<notin> fst ` set results) \<and>
        distinct (map fst results) \<and>
        total_emojis = total_len results)"
proof -
  assume sd: "scan_directory root entries = (results, total_emojis)"
  have "\<forall>(k, v) \<in> set (fst (scan_directory root entries)). v \<noteq> []"
    unfolding scan_directory_def by (rule foldl_nonempty) simp
  with sd have a: "\<forall>(k, v) \<in> set results. v \<noteq> []" by simp
  have b: "(\<forall>e \<in> set entries. find_emojis_in_file (contents e) = [] \<longrightarrow> key e \<notin> fst ` set results) \<and>
        distinct (map fst results) \<and> total_emojis = total_len results"
    if d: "distinct (map key entries)"
  proof -
    from scan_directory_recorded[OF d, of root] sd
    have r: "results = recorded root entries" and t: "total_emojis = total_len results"
      by simp_all
    have k: "key e \<notin> fst ` set results"
      if "e \<in> set entries" "find_emojis_in_file (contents e) = []" for e
    proof -
      from map_of_recorded[OF d that(1), of root] that(2)
      have "map_of results (key e) = None" by (simp add: r)
      then show ?thesis by (simp add: map_of_eq_None_iff)
    qed
    from k t distinct_recorded[OF d, of root] show ?thesis by (auto simp: r)
  qed
  from a b show ?thesis by blast
qed

theorem report_invariant_witness:
  "distinct (map key [a_js, src_dir, b_js, index_js, a_css]) \<and>
   scan_directory project_root [a_js, src_dir, b_js, index_js, a_css] =
     ([(py ''a.js'', find_emojis_in_file (Inr string_line)),
       (py ''a.css'', find_emojis_in_file (Inr string_line))], 2) \<and>
   find_emojis_in_file (Inr string_line) \<noteq> [] \<and>
   b_js \<in> set [a_js, src_dir, b_js, index_js, a_css] \<and>
   find_emojis_in_file (contents b_js) = [] \<and>
   key b_js \<notin> fst ` set [(py ''a.js'', find_emojis_in_file (Inr string_line)),
                           (py ''a.css'', find_emojis_in_file (Inr string_line))] \<and>
   (2 :: nat) = total_len [(py ''a.js'', find_emojis_in_file (Inr string_line)),
                           (py ''a.css'', find_emojis_in_file (Inr string_line))]"
  using report_invariant [OF scan_directory_example]
    distinct_example scan_directory_example contents_example(4)
  by (simp add: find_string_line_nonempty)

text \<open>
  C10: the excluded-directory test runs over the parts of the whole path, those of the
  root included: when a component of the root is an excluded name, \<open>scan_directory\<close>
  returns the empty mapping and total 0 whatever the entries are.
\<close>

theorem excluded_root_scans_nothing:
  "in_excluded_dir root \<Longrightarrow> scan_directory root entries = ([], 0)"
  by (simp add: scan_directory_def foldl_excluded)

theorem excluded_root_scans_nothing_witness:
  "in_excluded_dir build_root \<and> py ''build'' \<in> set build_root \<and>
   \<not> is_dir a_js \<and> find_emojis_in_file (contents a_js) \<noteq> [] \<and>
   scan_directory build_root [a_js, a_css] = ([], 0)"
proof -
  have x: "in_excluded_dir build_root" by (simp add: entry_eval walker_eval)
  have b: "py ''build'' \<in> set build_root" by (simp add: build_root_def)
  have f: "\<not> is_dir a_js" "find_emojis_in_file (contents a_js) \<noteq> []"
    by (simp_all add: contents_example find_string_line_nonempty) (simp add: a_js_def)
  from x b f excluded_root_scans_nothing [OF x, of "[a_js, a_css]"] show ?thesis by simp
qed

text \<open>
  C2, with the excluded names looked for among the components below the root only,
  does not hold: \<open>a.js\<close>, a file with a reportable emoji below the root
  \<open>/home/build/proj\<close>, is not a directory, has no excluded name among its components
  below the root and has the suffix \<open>.js\<close>, and yet it is not in the report.
\<close>

theorem relative_components_counterexample:
  "\<not> is_dir a_js \<and> \<not> in_excluded_dir (rel_parts a_js) \<and>
   suffix (rel_parts a_js) \<in> set extensions \<and>
   find_emojis_in_file (contents a_js) \<noteq> [] \<and>
   scan_directory build_root [a_js] = ([], 0)"
proof -
  have "in_excluded_dir build_root" by (simp add: entry_eval walker_eval)
  then have "scan_directory build_root [a_js] = ([], 0)"
    unfolding scan_directory_def by (rule foldl_excluded)
  moreover have "\<not> is_dir a_js" "\<not> in_excluded_dir (rel_parts a_js)"
    "suffix (rel_parts a_js) \<in> set extensions"
    by (simp_all add: entry_eval walker_eval)
  ultimately show ?thesis by (simp add: contents_example find_string_line_nonempty)
qed

text \<open>
  C2, amended: over entries with distinct relative paths, the findings of an entry are
  in the report under its relative path exactly when it is not a directory, no part
  of its whole path (the parts of the root followed by those below the root) is an
  excluded name, the suffix of its name is one of the seven extensions, and its scan
  yields a finding.  An entry with a component \<open>node_modules\<close> below the root is not in
  the report.
\<close>

theorem recorded_iff_passes_filters:
  "distinct (map key entries) \<Longrightarrow> e \<in> set entries \<Longrightarrow>
     map_of (fst (scan_directory root entries)) (path_str (rel_parts e)) =
       (if \<not> is_dir e \<and> \<not> in_excluded_dir (root @ rel_parts e) \<and>
           suffix (root @ rel_parts e) \<in> set extensions \<and>
           find_emojis_in_file (contents e) \<noteq> []
        then Some (find_emojis_in_file (contents e)) else None) \<and>
     (py ''node_modules'' \<in> set (rel_parts e) \<longrightarrow>
        map_of (fst (scan_directory root entries)) (path_str (rel_parts e)) = None)"
proof -
  assume d: "distinct (map key entries)" and e: "e \<in> set entries"
  have m: "map_of (fst (scan_directory root entries)) (path_str (rel_parts e)) =
       (if \<not> is_dir e \<and> \<not> in_excluded_dir (root @ rel_parts e) \<and>
           suffix (root @ rel_parts e) \<in> set extensions \<and>
           find_emojis_in_file (contents e) \<noteq> []
        then Some (find_emojis_in_file (contents e)) else None)"
    using map_of_recorded[OF d e, of root]
    by (simp add: scan_directory_recorded[OF d] is_scanned_def parts_def key_def conj_assoc)
  have "in_excluded_dir (root @ rel_parts e)" if "py ''node_modules'' \<in> set (rel_parts e)"
    using that by (simp add: in_excluded_dir_def skip_dirs_def)
  with m show ?thesis by simp
qed

theorem recorded_iff_passes_filters_witness:
  "distinct (map key [a_js, src_dir, b_js, index_js, a_css]) \<and>
   index_js \<in> set [a_js, src_dir, b_js, index_js, a_css] \<and>
   a_js \<in> set [a_js, src_dir, b_js, index_js, a_css] \<and>
   py ''node_modules'' \<in> set (rel_parts index_js) \<and>
   find_emojis_in_file (contents index_js) \<noteq> [] \<and>
   map_of (fst (scan_directory project_root [a_js, src_dir, b_js, index_js, a_css]))
     (path_str (rel_parts index_js)) = None \<and>
   map_of (fst (scan_directory project_root [a_js, src_dir, b_js, index_js, a_css]))
     (path_str (rel_parts a_js)) = Some (find_emojis_in_file (contents a_js))"
proof -
  have i: "index_js \<in> set [a_js, src_dir, b_js, index_js, a_css]"
    "a_js \<in> set [a_js, src_dir, b_js, index_js, a_css]" by simp_all
  have n: "py ''node_modules'' \<in> set (rel_parts index_js)" by (simp add: index_js_def)
  have s: "\<not> is_dir a_js \<and> \<not> in_excluded_dir (project_root @ rel_parts a_js) \<and>
           suffix (project_root @ rel_parts a_js) \<in> set extensions \<and>
           find_emojis_in_file (contents a_js) \<noteq> []"
    using scanned_example(1) by (simp add: is_scanned_def parts_def contents_example
        find_string_line_nonempty)
  have f: "find_emojis_in_file (contents index_js) \<noteq> []"
    by (simp add: contents_example find_string_line_nonempty)
  from recorded_iff_passes_filters [OF distinct_example i(1), of project_root] n
  have r1: "map_of (fst (scan_directory project_root [a_js, src_dir, b_js, index_js, a_css]))
     (path_str (rel_parts index_js)) = None" by blast
  from recorded_iff_passes_filters [OF distinct_example i(2), of project_root]
  have r2: "map_of (fst (scan_directory project_root [a_js, src_dir, b_js, index_js, a_css]))
     (path_str (rel_parts a_js)) = Some (find_emojis_in_file (contents a_js))"
    by (simp only: if_P[OF s])
  from distinct_example i n f r1 r2 show ?thesis by blast
qed


end
